theory Spec2Isabelle
  imports
    Main
    "HOL-Library.Sublist"
    "HOL-Library.Char_ord"
    "HOL-Library.List_Lexorder"
    "HOL-Library.Product_Lexorder"
begin

section \<open>The code-list compiler of \<open>icd_code_flags_snflk\<close>\<close>

text \<open>
  The function reads a code-list sheet, prepares the frame \<open>df_comor_codes\<close> (one row per
  comma-separated entry of a code cell), groups the wildcard entries into the frame
  \<open>df_regex_codes\<close>, and issues one SQL statement per rule through the cursor \<open>cur\<close>.

  Modelling decisions.
  \<^item> Text is a \<open>string\<close> (a list of 8-bit characters); the model is exact for ASCII text.
  \<^item> The sheet is the list of its rows in sheet order. Every cell of the three columns
    the function reads holds text; \<open>descr\<close> is the cell of the column named by the
    argument \<open>map_descr_var\<close>. A missing cell (\<open>NaN\<close>) is outside the model: pandas
    cannot filter on a missing code type, and its \<open>groupby\<close> drops a missing
    description.
  \<^item> The patterns the function passes to \<open>str.contains\<close>, \<open>str.replace\<close> and
    \<open>str.split\<close> hold no regular-expression metacharacter, so each is matched as the
    literal text it is.
  \<^item> The cursor is the list of the statements executed so far; \<open>cur.execute\<close> appends
    one. A statement keeps the arguments of its \<open>format\<close> call instead of the SQL text.
  \<^item> An index into a Python list that is out of range raises \<open>IndexError\<close>; the model
    returns it as a value.
\<close>

subsection \<open>String operations of Python and pandas\<close>

text \<open>\<open>pat in s\<close>, which is also what \<open>Series.str.contains(pat)\<close> computes for a pattern
  without regular-expression metacharacters.\<close>

fun str_contains :: "string \<Rightarrow> string \<Rightarrow> bool" where
  "str_contains pat [] = (pat = [])"
| "str_contains pat (c # cs) = (prefix pat (c # cs) \<or> str_contains pat cs)"

text \<open>\<open>s.upper()\<close> on ASCII text.\<close>

definition upper_char :: "char \<Rightarrow> char" where
  "upper_char c =
     (if CHR ''a'' \<le> c \<and> c \<le> CHR ''z'' then char_of (of_char c - (32::nat)) else c)"

definition str_upper :: "string \<Rightarrow> string" where
  "str_upper s = map upper_char s"

text \<open>\<open>Series.str.contains(pat, case=False, regex=False)\<close>: pandas compares
  \<open>pat.upper()\<close> with \<open>s.upper()\<close>.\<close>

definition str_contains_nocase :: "string \<Rightarrow> string \<Rightarrow> bool" where
  "str_contains_nocase pat s = str_contains (str_upper pat) (str_upper s)"

text \<open>\<open>s.replace(old, new)\<close> for a one-character \<open>old\<close>.\<close>

definition str_replace :: "char \<Rightarrow> string \<Rightarrow> string \<Rightarrow> string" where
  "str_replace old new s = concat (map (\<lambda>c. if c = old then new else [c]) s)"

text \<open>\<open>s.split(sep)\<close> for a one-character \<open>sep\<close>: never the empty list, and an empty
  piece between two adjacent separators.\<close>

fun str_split :: "char \<Rightarrow> string \<Rightarrow> string list" where
  "str_split sep [] = [[]]"
| "str_split sep (c # cs) =
     (if c = sep then [] # str_split sep cs
      else (let pieces = str_split sep cs in (c # hd pieces) # tl pieces))"

text \<open>\<open>s.ljust(width, fill)\<close>.\<close>

definition ljust :: "nat \<Rightarrow> char \<Rightarrow> string \<Rightarrow> string" where
  "ljust width fill s = s @ replicate (width - length s) fill"

text \<open>\<open>sep.join(xs)\<close>.\<close>

fun join :: "string \<Rightarrow> string list \<Rightarrow> string" where
  "join sep [] = []"
| "join sep [x] = x"
| "join sep (x # y # ys) = x @ sep @ join sep (y # ys)"

subsection \<open>Frames\<close>

text \<open>A row of the sheet, restricted to the columns the function reads.\<close>

record map_row =
  code_type :: string
  code :: string
  descr :: string

text \<open>A row of \<open>df_comor_codes\<close> after the explosion. A column that holds \<open>None\<close> or
  \<open>NaN\<close> in pandas is \<open>None\<close> here.\<close>

record codes_row = map_row +
  code_orig :: string
  code_array :: string
  code_range :: "string option"
  code_regex :: "string option"

text \<open>A row of \<open>df_regex_codes\<close>.\<close>

record regex_row =
  rx_code_type :: string
  rx_descr :: string
  rx_code_regex :: string

subsection \<open>Preparing the code list\<close>

text \<open>Only select ICD codes.\<close>

definition select_icd :: "map_row list \<Rightarrow> map_row list" where
  "select_icd df = filter (\<lambda>r. str_contains_nocase ''ICD'' (code_type r)) df"

text \<open>Match the ICD type of the map to the value of the database: the nested
  \<open>np.where\<close>.\<close>

definition match_code_type :: "string \<Rightarrow> string" where
  "match_code_type ct =
     (if str_contains ''9'' ct then ''9''
      else if str_contains ''10'' ct then ''10''
      else ct)"

definition set_code_type :: "map_row list \<Rightarrow> map_row list" where
  "set_code_type df = map (\<lambda>r. r\<lparr>code_type := match_code_type (code_type r)\<rparr>) df"

text \<open>Keep the cell as \<open>code_orig\<close>, remove the blanks from \<open>code\<close>, split it at the
  commas and explode: one row per piece, the other columns repeated.\<close>

definition explode_row :: "map_row \<Rightarrow> codes_row list" where
  "explode_row r =
     (let stripped = str_replace CHR '' '' [] (code r)
      in map (\<lambda>piece.
               \<lparr>code_type = code_type r, code = stripped, descr = descr r,
                code_orig = code r, code_array = piece,
                code_range = None, code_regex = None\<rparr>)
             (str_split CHR '','' stripped))"

definition explode_codes :: "map_row list \<Rightarrow> codes_row list" where
  "explode_codes df = concat (map explode_row df)"

text \<open>The column that holds the code ranges.\<close>

definition set_code_range :: "codes_row \<Rightarrow> codes_row" where
  "set_code_range e =
     e\<lparr>code_range := (if str_contains ''-'' (code_array e) then Some (code_array e) else None)\<rparr>"

text \<open>The column of the other entries, with \<open>x\<close> replaced by \<open>.\<close>.\<close>

definition set_code_regex :: "codes_row \<Rightarrow> codes_row" where
  "set_code_regex e =
     e\<lparr>code_regex := (if \<not> str_contains ''-'' (code_array e)
                      then Some (str_replace CHR ''x'' ''.'' (code_array e)) else None)\<rparr>"

text \<open>\<open>code_regex + ".*"\<close>: a missing value stays missing.\<close>

definition append_suffix :: "codes_row \<Rightarrow> codes_row" where
  "append_suffix e = e\<lparr>code_regex := map_option (\<lambda>s. s @ ''.*'') (code_regex e)\<rparr>"

definition prep_codelist :: "map_row list \<Rightarrow> codes_row list" where
  "prep_codelist sheet =
     map (append_suffix \<circ> set_code_regex \<circ> set_code_range)
         (explode_codes (set_code_type (select_icd sheet)))"

subsection \<open>Grouping the wildcard entries\<close>

text \<open>\<open>groupby(keys)[col].apply(f)\<close> with the defaults of pandas: the rows are collected
  per key in row order, and the groups are returned in ascending order of the key.\<close>

fun group_add :: "'k \<Rightarrow> 'v \<Rightarrow> ('k \<times> 'v list) list \<Rightarrow> ('k \<times> 'v list) list" where
  "group_add k v [] = [(k, [v])]"
| "group_add k v ((k', vs) # gs) =
     (if k = k' then (k', vs @ [v]) # gs else (k', vs) # group_add k v gs)"

fun collect_groups :: "('k \<times> 'v) list \<Rightarrow> ('k \<times> 'v list) list \<Rightarrow> ('k \<times> 'v list) list" where
  "collect_groups [] gs = gs"
| "collect_groups ((k, v) # kvs) gs = collect_groups kvs (group_add k v gs)"

definition groupby :: "('k::linorder \<times> 'v) list \<Rightarrow> ('k \<times> 'v list) list" where
  "groupby kvs = sort_key fst (collect_groups kvs [])"

text \<open>The rows whose \<open>code_regex\<close> is not missing, as key and value of the grouping.\<close>

definition regex_entries :: "codes_row list \<Rightarrow> ((string \<times> string) \<times> string) list" where
  "regex_entries df =
     List.map_filter
       (\<lambda>e. case code_regex e of None \<Rightarrow> None
                               | Some rx \<Rightarrow> Some ((code_type e, descr e), rx)) df"

definition regex_codes :: "codes_row list \<Rightarrow> regex_row list" where
  "regex_codes df =
     map (\<lambda>(k, rxs). \<lparr>rx_code_type = fst k, rx_descr = snd k, rx_code_regex = join ''|'' rxs\<rparr>)
         (groupby (regex_entries df))"

subsection \<open>The statements\<close>

text \<open>The arguments of the call that end up in the SQL text.\<close>

record params =
  indata :: string
  indata_code_var :: string
  indata_code_type_var :: string
  outdata :: string
  xwhere :: string

datatype statement =
    CreateTableLike string string
  | AlterTableAdd string
  | InsertRegexp params string string string
  | InsertBetween params string string string string string

datatype error = IndexError

type_synonym cursor = "statement list"

definition execute :: "statement \<Rightarrow> cursor \<Rightarrow> cursor" where
  "execute s cur = cur @ [s]"

text \<open>\<open>xs[i]\<close> for a non-negative \<open>i\<close>.\<close>

definition index :: "'a list \<Rightarrow> nat \<Rightarrow> error + 'a" where
  "index xs i = (if i < length xs then Inr (xs ! i) else Inl IndexError)"

text \<open>The loop over the regex rules. The three lists of the source are the columns of
  one frame, so the loop runs over its rows.\<close>

fun regex_loop :: "params \<Rightarrow> regex_row list \<Rightarrow> cursor \<Rightarrow> cursor" where
  "regex_loop p [] cur = cur"
| "regex_loop p (g # gs) cur =
     regex_loop p gs
       (execute (InsertRegexp p (rx_code_regex g) (rx_code_type g) (rx_descr g)) cur)"

text \<open>The body of the loop over the ranges: the two bounds, then the statement.\<close>

definition range_statement :: "params \<Rightarrow> string \<Rightarrow> string \<Rightarrow> string \<Rightarrow> error + statement" where
  "range_statement p val ct d =
     (case index (str_split CHR ''-'' val) 0 of
        Inl err \<Rightarrow> Inl err
      | Inr range_low \<Rightarrow>
          (case index (str_split CHR ''-'' val) 1 of
             Inl err \<Rightarrow> Inl err
           | Inr part \<Rightarrow> Inr (InsertBetween p val ct d range_low (ljust 7 CHR ''Z'' part))))"

text \<open>The rows whose \<open>code_range\<close> is not missing: the range, the code type and the
  description of each.\<close>

definition range_entries :: "codes_row list \<Rightarrow> (string \<times> string \<times> string) list" where
  "range_entries df =
     List.map_filter
       (\<lambda>e. case code_range e of None \<Rightarrow> None
                               | Some rg \<Rightarrow> Some (rg, code_type e, descr e)) df"

fun range_loop :: "params \<Rightarrow> (string \<times> string \<times> string) list \<Rightarrow> cursor \<Rightarrow> error + cursor" where
  "range_loop p [] cur = Inr cur"
| "range_loop p ((val, ct, d) # rest) cur =
     (case range_statement p val ct d of
        Inl err \<Rightarrow> Inl err
      | Inr s \<Rightarrow> range_loop p rest (execute s cur))"

subsection \<open>The function\<close>

text \<open>The result is the cursor after the call and the two frames the function returns.\<close>

definition icd_code_flags_snflk ::
  "params \<Rightarrow> map_row list \<Rightarrow> cursor \<Rightarrow> error + (cursor \<times> codes_row list \<times> regex_row list)" where
  "icd_code_flags_snflk p sheet cur =
     (let df_comor_codes = prep_codelist sheet;
          df_regex_codes = regex_codes df_comor_codes;
          cur1 = execute (CreateTableLike (outdata p) (indata p)) cur;
          cur2 = execute (AlterTableAdd (outdata p)) cur1;
          cur3 = regex_loop p df_regex_codes cur2
      in case range_loop p (range_entries df_comor_codes) cur3 of
           Inl err \<Rightarrow> Inl err
         | Inr cur4 \<Rightarrow> Inr (cur4, df_comor_codes, df_regex_codes))"

subsection \<open>Auxiliary definitions\<close>

text \<open>The values collected so far under a key, for the proofs about \<open>groupby\<close>.\<close>

definition vals :: "'k \<Rightarrow> ('k \<times> 'v list) list \<Rightarrow> 'v list" where
  "vals k gs = (case map_of gs k of None \<Rightarrow> [] | Some vs \<Rightarrow> vs)"

text \<open>A small sheet on which the theorems below are instantiated: a cell with a wildcard
  code and a range, a row that is not an ICD row, a row in lower case, and a second row
  of the first group.\<close>

definition demo_params :: params where
  "demo_params = \<lparr>indata = ''I'', indata_code_var = ''dx'', indata_code_type_var = ''ty'',
                   outdata = ''O'', xwhere = ''''\<rparr>"

definition demo_sheet :: "map_row list" where
  "demo_sheet =
     [\<lparr>code_type = ''ICD-9'', code = ''25x, 1-3'', descr = ''D''\<rparr>,
      \<lparr>code_type = ''CPT'', code = ''9'', descr = ''V''\<rparr>,
      \<lparr>code_type = ''icd10'', code = ''I1'', descr = ''H''\<rparr>,
      \<lparr>code_type = ''ICD-9'', code = ''26'', descr = ''D''\<rparr>]"

definition demo_codes :: "codes_row list" where
  "demo_codes =
     [\<lparr>code_type = ''9'', code = ''25x,1-3'', descr = ''D'', code_orig = ''25x, 1-3'',
       code_array = ''25x'', code_range = None, code_regex = Some ''25..*''\<rparr>,
      \<lparr>code_type = ''9'', code = ''25x,1-3'', descr = ''D'', code_orig = ''25x, 1-3'',
       code_array = ''1-3'', code_range = Some ''1-3'', code_regex = None\<rparr>,
      \<lparr>code_type = ''10'', code = ''I1'', descr = ''H'', code_orig = ''I1'',
       code_array = ''I1'', code_range = None, code_regex = Some ''I1.*''\<rparr>,
      \<lparr>code_type = ''9'', code = ''26'', descr = ''D'', code_orig = ''26'',
       code_array = ''26'', code_range = None, code_regex = Some ''26.*''\<rparr>]"

definition demo_regex :: "regex_row list" where
  "demo_regex =
     [\<lparr>rx_code_type = ''10'', rx_descr = ''H'', rx_code_regex = ''I1.*''\<rparr>,
      \<lparr>rx_code_type = ''9'', rx_descr = ''D'', rx_code_regex = ''25..*|26.*''\<rparr>]"

definition demo_cursor :: cursor where
  "demo_cursor =
     [CreateTableLike ''O'' ''I'', AlterTableAdd ''O'',
      InsertRegexp demo_params ''I1.*'' ''10'' ''H'',
      InsertRegexp demo_params ''25..*|26.*'' ''9'' ''D'',
      InsertBetween demo_params ''1-3'' ''9'' ''D'' ''1'' ''3ZZZZZZ'']"

text \<open>A sheet with blanks inside a cell and a doubled comma.\<close>

definition comma_sheet :: "map_row list" where
  "comma_sheet = [\<lparr>code_type = ''ICD9'', code = '' 2 5,,7 '', descr = ''D''\<rparr>]"

definition comma_codes :: "codes_row list" where
  "comma_codes =
     [\<lparr>code_type = ''9'', code = ''25,,7'', descr = ''D'', code_orig = '' 2 5,,7 '',
       code_array = ''25'', code_range = None, code_regex = Some ''25.*''\<rparr>,
      \<lparr>code_type = ''9'', code = ''25,,7'', descr = ''D'', code_orig = '' 2 5,,7 '',
       code_array = '''', code_range = None, code_regex = Some ''.*''\<rparr>,
      \<lparr>code_type = ''9'', code = ''25,,7'', descr = ''D'', code_orig = '' 2 5,,7 '',
       code_array = ''7'', code_range = None, code_regex = Some ''7.*''\<rparr>]"

section \<open>Properties of the string operations\<close>

lemma str_contains_iff: "str_contains pat s \<longleftrightarrow> (\<exists>p q. s = p @ pat @ q)"
proof (induction s)
  case Nil
  then show ?case by auto
next
  case (Cons c cs)
  have "(\<exists>p q. c # cs = p @ pat @ q) \<longleftrightarrow> prefix pat (c # cs) \<or> (\<exists>p q. cs = p @ pat @ q)"
  proof
    assume "\<exists>p q. c # cs = p @ pat @ q"
    then obtain p q where pq: "c # cs = p @ pat @ q" by blast
    show "prefix pat (c # cs) \<or> (\<exists>p q. cs = p @ pat @ q)"
    proof (cases p)
      case Nil
      with pq show ?thesis by (auto simp: prefix_def)
    next
      case (Cons a p')
      with pq have "cs = p' @ pat @ q" by simp
      then show ?thesis by blast
    qed
  next
    assume "prefix pat (c # cs) \<or> (\<exists>p q. cs = p @ pat @ q)"
    then show "\<exists>p q. c # cs = p @ pat @ q"
    proof
      assume "prefix pat (c # cs)"
      then obtain q where "c # cs = pat @ q" by (auto simp: prefix_def)
      then have "c # cs = [] @ pat @ q" by simp
      then show ?thesis by blast
    next
      assume "\<exists>p q. cs = p @ pat @ q"
      then obtain p q where "cs = p @ pat @ q" by blast
      then have "c # cs = (c # p) @ pat @ q" by simp
      then show ?thesis by blast
    qed
  qed
  with Cons show ?case by simp
qed

lemma str_contains_char: "str_contains [c] s \<longleftrightarrow> c \<in> set s"
  by (induction s) auto

lemma str_split_not_Nil: "str_split sep s \<noteq> []"
  by (induction s) (auto simp: Let_def)

lemma str_split_no_sep: "sep \<notin> set s \<Longrightarrow> str_split sep s = [s]"
  by (induction s) (auto simp: Let_def)

lemma str_split_at_sep:
  "sep \<notin> set l \<Longrightarrow> str_split sep (l @ sep # r) = l # str_split sep r"
  by (induction l) (auto simp: Let_def)

lemma str_split_pieces: "w \<in> set (str_split sep s) \<Longrightarrow> sep \<notin> set w"
proof (induction s arbitrary: w)
  case Nil
  then show ?case by simp
next
  case (Cons c cs)
  obtain h t where ht: "str_split sep cs = h # t"
    using str_split_not_Nil [of sep cs] by (cases "str_split sep cs") auto
  with Cons show ?case by (auto simp: Let_def split: if_splits)
qed

lemma join_str_split: "join [sep] (str_split sep s) = s"
proof (induction s)
  case Nil
  then show ?case by simp
next
  case (Cons c cs)
  obtain h t where ht: "str_split sep cs = h # t"
    using str_split_not_Nil [of sep cs] by (cases "str_split sep cs") auto
  with Cons show ?case by (cases t) (auto simp: Let_def)
qed

lemma length_str_split: "length (str_split sep s) = Suc (count_list s sep)"
proof (induction s)
  case Nil
  then show ?case by simp
next
  case (Cons c cs)
  obtain h t where ht: "str_split sep cs = h # t"
    using str_split_not_Nil [of sep cs] by (cases "str_split sep cs") auto
  with Cons show ?case by (auto simp: Let_def)
qed

lemma str_replace_delete: "str_replace c [] s = filter (\<lambda>x. x \<noteq> c) s"
  by (induction s) (auto simp: str_replace_def)

lemma str_replace_char: "str_replace c [d] s = map (\<lambda>x. if x = c then d else x) s"
  by (induction s) (auto simp: str_replace_def)

lemma split_first:
  "sep \<in> set s \<Longrightarrow>
   str_split sep s = takeWhile (\<lambda>x. x \<noteq> sep) s # str_split sep (tl (dropWhile (\<lambda>x. x \<noteq> sep) s))"
proof -
  assume "sep \<in> set s"
  then have d: "dropWhile (\<lambda>x. x \<noteq> sep) s \<noteq> []" by (simp add: dropWhile_eq_Nil_conv) 
  then have hd: "hd (dropWhile (\<lambda>x. x \<noteq> sep) s) = sep" using hd_dropWhile [of "\<lambda>x. x \<noteq> sep" s] by auto
  have "s = takeWhile (\<lambda>x. x \<noteq> sep) s @ sep # tl (dropWhile (\<lambda>x. x \<noteq> sep) s)"
    using d hd by (metis takeWhile_dropWhile_id list.collapse)
  moreover have "sep \<notin> set (takeWhile (\<lambda>x. x \<noteq> sep) s)" by (auto dest: set_takeWhileD)
  ultimately show ?thesis using str_split_at_sep by metis
qed

lemma hd_str_split: "hd (str_split sep s) = takeWhile (\<lambda>x. x \<noteq> sep) s"
  by (induction s) (auto simp: Let_def)

section \<open>Properties of the grouping\<close>

lemma keys_group_add: "fst ` set (group_add k v gs) = insert k (fst ` set gs)"
proof (induction gs)
  case Nil
  then show ?case by simp
next
  case (Cons g gs)
  obtain k' vs where g: "g = (k', vs)" by (cases g)
  show ?case by (cases "k = k'") (simp_all add: g Cons.IH insert_commute)
qed

lemma vals_Nil: "vals k [] = []"
  by (simp add: vals_def)

lemma distinct_map_sort_key: "distinct (map f (sort_key f xs)) = distinct (map f xs)"
  by (induction xs) (simp_all add: distinct_insort_key)

lemma distinct_group_add: "distinct (map fst gs) \<Longrightarrow> distinct (map fst (group_add k v gs))"
proof (induction gs)
  case Nil
  then show ?case by simp
next
  case (Cons g gs)
  obtain k' vs where g: "g = (k', vs)" by (cases g)
  show ?case
  proof (cases "k = k'")
    case True
    with Cons.prems g show ?thesis by simp
  next
    case False
    have "k' \<notin> fst ` set (group_add k v gs)"
      using Cons.prems g False by (simp add: keys_group_add)
    with Cons g False show ?thesis by simp
  qed
qed

lemma vals_group_add:
  "vals j (group_add k v gs) = (if j = k then vals j gs @ [v] else vals j gs)"
  by (induction gs) (auto simp: vals_def)

lemma keys_collect_groups:
  "fst ` set (collect_groups kvs gs) = fst ` set gs \<union> fst ` set kvs"
proof (induction kvs arbitrary: gs)
  case Nil
  then show ?case by simp
next
  case (Cons kv kvs)
  obtain k v where kv: "kv = (k, v)" by (cases kv)
  show ?case unfolding kv by (simp add: Cons.IH keys_group_add)
qed

lemma distinct_collect_groups:
  "distinct (map fst gs) \<Longrightarrow> distinct (map fst (collect_groups kvs gs))"
proof (induction kvs arbitrary: gs)
  case Nil
  then show ?case by simp
next
  case (Cons kv kvs)
  obtain k v where kv: "kv = (k, v)" by (cases kv)
  show ?case unfolding kv using Cons.prems by (simp add: Cons.IH distinct_group_add)
qed

lemma vals_collect_groups:
  "vals j (collect_groups kvs gs) = vals j gs @ map snd (filter (\<lambda>kv. fst kv = j) kvs)"
proof (induction kvs arbitrary: gs)
  case Nil
  then show ?case by simp
next
  case (Cons kv kvs)
  obtain k v where kv: "kv = (k, v)" by (cases kv)
  show ?case unfolding kv by (simp add: Cons.IH vals_group_add)
qed

lemma vals_member:
  "distinct (map fst gs) \<Longrightarrow> (k, vs) \<in> set gs \<Longrightarrow> vals k gs = vs"
  by (simp add: vals_def)

lemma groupby_keys:
  "map fst (groupby kvs) = sorted_list_of_set (set (map fst kvs))"
proof -
  let ?gs = "collect_groups kvs []"
  have d: "distinct (map fst ?gs)" by (simp add: distinct_collect_groups)
  have s: "set (map fst (groupby kvs)) = set (map fst kvs)"
    by (simp add: groupby_def keys_collect_groups)
  have "sorted (map fst (groupby kvs))" by (simp add: groupby_def)
  moreover have "distinct (map fst (groupby kvs))"
    using d by (simp add: groupby_def distinct_map_sort_key)
  ultimately have "sorted_list_of_set (set (map fst (groupby kvs))) = map fst (groupby kvs)"
    by (rule sorted_list_of_set.idem_if_sorted_distinct)
  then show ?thesis by (simp only: s)
qed

lemma groupby_member:
  assumes "(k, vs) \<in> set (groupby kvs)"
  shows "vs = map snd (filter (\<lambda>kv. fst kv = k) kvs)"
proof -
  let ?gs = "collect_groups kvs []"
  have d: "distinct (map fst ?gs)" by (simp add: distinct_collect_groups)
  from assms have "(k, vs) \<in> set ?gs" by (simp add: groupby_def)
  with d have "vals k ?gs = vs" by (rule vals_member)
  then show ?thesis by (simp add: vals_collect_groups vals_Nil)
qed

lemma groupby_eq:
  "groupby kvs =
     map (\<lambda>k. (k, map snd (filter (\<lambda>kv. fst kv = k) kvs)))
         (sorted_list_of_set (set (map fst kvs)))"
proof -
  have "groupby kvs = map (\<lambda>g. (fst g, snd g)) (groupby kvs)" by simp
  also have "\<dots> = map (\<lambda>g. (fst g, map snd (filter (\<lambda>kv. fst kv = fst g) kvs))) (groupby kvs)"
  proof (rule map_cong [OF refl])
    fix g assume "g \<in> set (groupby kvs)"
    then have "(fst g, snd g) \<in> set (groupby kvs)" by simp
    then have "snd g = map snd (filter (\<lambda>kv. fst kv = fst g) kvs)" by (rule groupby_member)
    then show "(fst g, snd g) = (fst g, map snd (filter (\<lambda>kv. fst kv = fst g) kvs))" by simp
  qed
  also have "\<dots> = map (\<lambda>k. (k, map snd (filter (\<lambda>kv. fst kv = k) kvs))) (map fst (groupby kvs))"
    by (simp add: comp_def)
  finally show ?thesis by (simp only: groupby_keys)
qed

section \<open>The prepared code list and the statements\<close>

lemma classify_entry:
  "append_suffix (set_code_regex (set_code_range
       \<lparr>code_type = ct, code = cd, descr = d, code_orig = co, code_array = piece,
        code_range = None, code_regex = None\<rparr>)) =
     \<lparr>code_type = ct, code = cd, descr = d, code_orig = co, code_array = piece,
      code_range = (if CHR ''-'' \<in> set piece then Some piece else None),
      code_regex = (if CHR ''-'' \<in> set piece then None
                    else Some (map (\<lambda>c. if c = CHR ''x'' then CHR ''.'' else c) piece @ ''.*''))\<rparr>"
  by (simp add: set_code_range_def set_code_regex_def append_suffix_def
      str_contains_char str_replace_char)

lemma prep_codelist_eq:
  "prep_codelist sheet =
     concat (map (\<lambda>r. map (\<lambda>piece.
         \<lparr>code_type = match_code_type (code_type r),
          code = filter (\<lambda>c. c \<noteq> CHR '' '') (code r),
          descr = descr r,
          code_orig = code r,
          code_array = piece,
          code_range = (if CHR ''-'' \<in> set piece then Some piece else None),
          code_regex = (if CHR ''-'' \<in> set piece then None
                        else Some (map (\<lambda>c. if c = CHR ''x'' then CHR ''.'' else c) piece @ ''.*''))\<rparr>)
         (str_split CHR '','' (filter (\<lambda>c. c \<noteq> CHR '' '') (code r))))
       (select_icd sheet))"
  by (simp add: prep_codelist_def explode_codes_def set_code_type_def explode_row_def
      map_concat comp_def Let_def classify_entry str_replace_delete)

lemma prep_codelist_entry:
  assumes "e \<in> set (prep_codelist sheet)"
  shows "code_range e = (if CHR ''-'' \<in> set (code_array e) then Some (code_array e) else None)"
    and "code_regex e = (if CHR ''-'' \<in> set (code_array e) then None
           else Some (map (\<lambda>c. if c = CHR ''x'' then CHR ''.'' else c) (code_array e) @ ''.*''))"
  using assms by (auto simp: prep_codelist_eq)

lemma map_filter_cases:
  assumes "\<And>x. x \<in> set xs \<Longrightarrow> f x = (if P x then Some (g x) else None)"
  shows "List.map_filter f xs = map g (filter P xs)"
  using assms by (induction xs) (simp_all add: map_filter_simps)

lemma range_entries_prep:
  "range_entries (prep_codelist sheet) =
     map (\<lambda>e. (code_array e, code_type e, descr e))
         (filter (\<lambda>e. CHR ''-'' \<in> set (code_array e)) (prep_codelist sheet))"
  unfolding range_entries_def
  by (rule map_filter_cases) (simp add: prep_codelist_entry)

lemma regex_entries_prep:
  "regex_entries (prep_codelist sheet) =
     map (\<lambda>e. ((code_type e, descr e),
                map (\<lambda>c. if c = CHR ''x'' then CHR ''.'' else c) (code_array e) @ ''.*''))
         (filter (\<lambda>e. CHR ''-'' \<notin> set (code_array e)) (prep_codelist sheet))"
  unfolding regex_entries_def
  by (rule map_filter_cases) (simp add: prep_codelist_entry)

lemma regex_loop_eq:
  "regex_loop p gs cur =
     cur @ map (\<lambda>g. InsertRegexp p (rx_code_regex g) (rx_code_type g) (rx_descr g)) gs"
  by (induction gs arbitrary: cur) (simp_all add: execute_def)

lemma range_statement_hyphen:
  assumes "CHR ''-'' \<in> set val"
  shows "range_statement p val ct d =
     Inr (InsertBetween p val ct d
            (takeWhile (\<lambda>c. c \<noteq> CHR ''-'') val)
            (ljust 7 CHR ''Z''
               (takeWhile (\<lambda>c. c \<noteq> CHR ''-'') (tl (dropWhile (\<lambda>c. c \<noteq> CHR ''-'') val)))))"
proof -
  let ?rest = "str_split CHR ''-'' (tl (dropWhile (\<lambda>c. c \<noteq> CHR ''-'') val))"
  have s: "str_split CHR ''-'' val = takeWhile (\<lambda>c. c \<noteq> CHR ''-'') val # ?rest"
    using assms by (rule split_first)
  obtain h t where ht: "?rest = h # t"
    using str_split_not_Nil by (cases ?rest) auto
  have "h = hd ?rest" by (simp add: ht)
  then have h: "h = takeWhile (\<lambda>c. c \<noteq> CHR ''-'') (tl (dropWhile (\<lambda>c. c \<noteq> CHR ''-'') val))"
    by (simp only: hd_str_split)
  show ?thesis
    unfolding range_statement_def s ht by (simp add: index_def h)
qed

lemma range_loop_eq:
  assumes "\<forall>x \<in> set es. CHR ''-'' \<in> set (fst x)"
  shows "range_loop p es cur =
     Inr (cur @ map (\<lambda>(val, ct, d). InsertBetween p val ct d
            (takeWhile (\<lambda>c. c \<noteq> CHR ''-'') val)
            (ljust 7 CHR ''Z''
               (takeWhile (\<lambda>c. c \<noteq> CHR ''-'') (tl (dropWhile (\<lambda>c. c \<noteq> CHR ''-'') val))))) es)"
  using assms
proof (induction es arbitrary: cur)
  case Nil
  then show ?case by simp
next
  case (Cons x es)
  obtain val ct d where x: "x = (val, ct, d)" by (cases x)
  have v: "CHR ''-'' \<in> set val" using Cons.prems x by simp
  have r: "\<forall>x \<in> set es. CHR ''-'' \<in> set (fst x)" using Cons.prems by simp
  show ?case
    unfolding x by (simp add: range_statement_hyphen [OF v] Cons.IH [OF r] execute_def)
qed

lemma icd_code_flags_snflk_eq:
  "icd_code_flags_snflk p sheet cur =
     Inr (cur @ [CreateTableLike (outdata p) (indata p), AlterTableAdd (outdata p)]
            @ map (\<lambda>g. InsertRegexp p (rx_code_regex g) (rx_code_type g) (rx_descr g))
                  (regex_codes (prep_codelist sheet))
            @ map (\<lambda>e. InsertBetween p (code_array e) (code_type e) (descr e)
                     (takeWhile (\<lambda>c. c \<noteq> CHR ''-'') (code_array e))
                     (ljust 7 CHR ''Z''
                        (takeWhile (\<lambda>c. c \<noteq> CHR ''-'')
                           (tl (dropWhile (\<lambda>c. c \<noteq> CHR ''-'') (code_array e))))))
                  (filter (\<lambda>e. CHR ''-'' \<in> set (code_array e)) (prep_codelist sheet)),
          prep_codelist sheet,
          regex_codes (prep_codelist sheet))"
proof -
  have "\<forall>x \<in> set (range_entries (prep_codelist sheet)). CHR ''-'' \<in> set (fst x)"
    by (simp add: range_entries_prep)
  then show ?thesis
    unfolding icd_code_flags_snflk_def Let_def
    by (simp add: range_loop_eq regex_loop_eq execute_def)
      (simp add: range_entries_prep comp_def)
qed

lemma regex_codes_keys:
  "map (\<lambda>g. (rx_code_type g, rx_descr g)) (regex_codes df) =
     sorted_list_of_set (fst ` set (regex_entries df))"
proof -
  have "map (\<lambda>g. (rx_code_type g, rx_descr g)) (regex_codes df) = map fst (groupby (regex_entries df))"
    by (simp add: regex_codes_def comp_def split_def)
  then show ?thesis by (simp add: groupby_keys)
qed

lemma regex_codes_member:
  assumes "g \<in> set (regex_codes df)"
  shows "rx_code_regex g =
     join ''|'' (map snd (filter (\<lambda>kv. fst kv = (rx_code_type g, rx_descr g)) (regex_entries df)))"
proof -
  from assms obtain k rxs where krxs: "(k, rxs) \<in> set (groupby (regex_entries df))"
    and g: "g = \<lparr>rx_code_type = fst k, rx_descr = snd k, rx_code_regex = join ''|'' rxs\<rparr>"
    by (auto simp: regex_codes_def)
  from krxs have "rxs = map snd (filter (\<lambda>kv. fst kv = k) (regex_entries df))"
    by (rule groupby_member)
  then show ?thesis by (simp add: g)
qed

lemma regex_entries_keys:
  "fst ` set (regex_entries df) =
     (\<lambda>e. (code_type e, descr e)) ` {e \<in> set df. code_regex e \<noteq> None}"
  by (induction df) (auto simp: regex_entries_def map_filter_simps split: option.splits)

lemma regex_entries_group:
  "map snd (filter (\<lambda>kv. fst kv = k) (regex_entries df)) =
     List.map_filter code_regex (filter (\<lambda>e. (code_type e, descr e) = k) df)"
  by (induction df) (auto simp: regex_entries_def map_filter_simps split: option.splits)

lemma icd_code_flags_snflk_result:
  assumes "icd_code_flags_snflk p sheet cur = Inr (cur', df, rx)"
  shows "df = prep_codelist sheet"
    and "rx = regex_codes df"
    and "cur' = cur @ [CreateTableLike (outdata p) (indata p), AlterTableAdd (outdata p)]
            @ map (\<lambda>g. InsertRegexp p (rx_code_regex g) (rx_code_type g) (rx_descr g)) rx
            @ map (\<lambda>e. InsertBetween p (code_array e) (code_type e) (descr e)
                     (takeWhile (\<lambda>c. c \<noteq> CHR ''-'') (code_array e))
                     (ljust 7 CHR ''Z''
                        (takeWhile (\<lambda>c. c \<noteq> CHR ''-'')
                           (tl (dropWhile (\<lambda>c. c \<noteq> CHR ''-'') (code_array e))))))
                  (filter (\<lambda>e. CHR ''-'' \<in> set (code_array e)) df)"
  using assms by (auto simp add: icd_code_flags_snflk_eq)


lemma takeWhile_before_sep:
  "sep \<notin> set l \<Longrightarrow> takeWhile (\<lambda>c. c \<noteq> sep) (l @ sep # r) = l"
  by (induction l) auto

lemma dropWhile_before_sep:
  "sep \<notin> set l \<Longrightarrow> dropWhile (\<lambda>c. c \<noteq> sep) (l @ sep # r) = sep # r"
  by (induction l) auto

lemma takeWhile_no_sep: "sep \<notin> set r \<Longrightarrow> takeWhile (\<lambda>c. c \<noteq> sep) r = r"
  by (induction r) auto


lemma str_split_subset: "w \<in> set (str_split sep s) \<Longrightarrow> set w \<subseteq> set s"
proof (induction s arbitrary: w)
  case Nil
  then show ?case by simp
next
  case (Cons c cs)
  obtain h t where ht: "str_split sep cs = h # t"
    using str_split_not_Nil [of sep cs] by (cases "str_split sep cs") auto
  have h: "set h \<subseteq> set cs" using Cons.IH [of h] ht by simp
  have t: "\<And>v. v \<in> set t \<Longrightarrow> set v \<subseteq> set cs" using Cons.IH ht by simp
  show ?case
  proof (cases "c = sep")
    case True
    with Cons.prems have "w = [] \<or> w \<in> set (str_split sep cs)" by simp
    then show ?thesis using Cons.IH [of w] by auto
  next
    case False
    with Cons.prems ht have "w = c # h \<or> w \<in> set t" by (simp add: Let_def)
    then show ?thesis using h t [of w] by auto
  qed
qed

lemma str_upper_ICD: "str_upper ''ICD'' = ''ICD''"
  by code_simp

lemma select_icd_eq:
  "select_icd sheet = filter (\<lambda>r. str_contains ''ICD'' (str_upper (code_type r))) sheet"
  by (simp add: select_icd_def str_contains_nocase_def str_upper_ICD)

lemma prep_codelist_select_icd: "prep_codelist (select_icd sheet) = prep_codelist sheet"
  by (simp add: prep_codelist_def select_icd_def)

lemma icd_substring_iff:
  "str_contains_nocase ''ICD'' ct \<longleftrightarrow> (\<exists>a m b. ct = a @ m @ b \<and> str_upper m = ''ICD'')"
proof -
  have "str_contains_nocase ''ICD'' ct \<longleftrightarrow> (\<exists>p q. str_upper ct = p @ ''ICD'' @ q)"
    by (simp only: str_contains_nocase_def str_upper_ICD str_contains_iff)
  also have "\<dots> \<longleftrightarrow> (\<exists>a m b. ct = a @ m @ b \<and> str_upper m = ''ICD'')"
  proof
    assume "\<exists>p q. str_upper ct = p @ ''ICD'' @ q"
    then obtain p q where "map upper_char ct = p @ (''ICD'' @ q)"
      unfolding str_upper_def by blast
    then have "\<exists>us vs. ct = us @ vs \<and> p = map upper_char us \<and> ''ICD'' @ q = map upper_char vs"
      by (simp only: map_eq_append_conv)
    then obtain a where "\<exists>vs. ct = a @ vs \<and> p = map upper_char a \<and> ''ICD'' @ q = map upper_char vs" ..
    then obtain rest where ar: "ct = a @ rest \<and> p = map upper_char a \<and> ''ICD'' @ q = map upper_char rest" ..
    note ct = ar [THEN conjunct1] and r = ar [THEN conjunct2, THEN conjunct2]
    from r have "\<exists>us vs. rest = us @ vs \<and> ''ICD'' = map upper_char us \<and> q = map upper_char vs"
      by (simp only: append_eq_map_conv)
    then obtain m where "\<exists>vs. rest = m @ vs \<and> ''ICD'' = map upper_char m \<and> q = map upper_char vs" ..
    then obtain b where mb: "rest = m @ b \<and> ''ICD'' = map upper_char m \<and> q = map upper_char b" ..
    note rest = mb [THEN conjunct1]
    have m: "map upper_char m = ''ICD''"
      by (rule sym) (rule mb [THEN conjunct2, THEN conjunct1])
    have "ct = a @ m @ b \<and> str_upper m = ''ICD''"
      unfolding str_upper_def using ct rest m by simp
    then show "\<exists>a m b. ct = a @ m @ b \<and> str_upper m = ''ICD''" by blast
  next
    assume "\<exists>a m b. ct = a @ m @ b \<and> str_upper m = ''ICD''"
    then obtain a m b where "ct = a @ m @ b" and "str_upper m = ''ICD''" by blast
    then have "str_upper ct = str_upper a @ ''ICD'' @ str_upper b"
      unfolding str_upper_def by (simp only: map_append)
    then show "\<exists>p q. str_upper ct = p @ ''ICD'' @ q" by blast
  qed
  finally show ?thesis .
qed

lemma in_concat_map:
  "e \<in> set (concat (map (\<lambda>r. map (G r) (P r)) xs)) \<longleftrightarrow>
     (\<exists>r \<in> set xs. \<exists>y \<in> set (P r). e = G r y)"
  by auto

lemma prep_codelist_mem:
  assumes "e \<in> set (prep_codelist sheet)"
  shows "\<exists>r \<in> set (select_icd sheet).
           \<exists>piece \<in> set (str_split CHR '','' (filter (\<lambda>c. c \<noteq> CHR '' '') (code r))).
             e = \<lparr>code_type = match_code_type (code_type r),
                  code = filter (\<lambda>c. c \<noteq> CHR '' '') (code r),
                  descr = descr r,
                  code_orig = code r,
                  code_array = piece,
                  code_range = (if CHR ''-'' \<in> set piece then Some piece else None),
                  code_regex = (if CHR ''-'' \<in> set piece then None
                     else Some (map (\<lambda>c. if c = CHR ''x'' then CHR ''.'' else c) piece @ ''.*''))\<rparr>"
  using assms unfolding prep_codelist_eq in_concat_map .

section \<open>The claims\<close>

lemma demo_run:
  "icd_code_flags_snflk demo_params demo_sheet [] = Inr (demo_cursor, demo_codes, demo_regex)"
  by code_simp

lemma comma_run:
  "icd_code_flags_snflk demo_params comma_sheet [] =
     Inr ([CreateTableLike ''O'' ''I'', AlterTableAdd ''O'',
           InsertRegexp demo_params ''25.*|.*|7.*'' ''9'' ''D''],
          comma_codes,
          [\<lparr>rx_code_type = ''9'', rx_descr = ''D'', rx_code_regex = ''25.*|.*|7.*''\<rparr>])"
  by code_simp

text \<open>
  Claim C1, as stated, fails. On a cell that holds the entry \<open>100--105\<close> and the entry
  \<open>7\<close> the call returns normally: no error is a value of the result, and the BETWEEN
  statement of the entry \<open>100--105\<close> is issued, with the low bound \<open>100\<close> and the
  empty second piece padded to \<open>ZZZZZZZ\<close> as the high bound.
\<close>

theorem double_hyphen_counterexample:
  "icd_code_flags_snflk demo_params
     [\<lparr>code_type = ''ICD9'', code = ''100--105,7'', descr = ''D''\<rparr>] [] =
   Inr ([CreateTableLike ''O'' ''I'', AlterTableAdd ''O'',
         InsertRegexp demo_params ''7.*'' ''9'' ''D'',
         InsertBetween demo_params ''100--105'' ''9'' ''D'' ''100'' ''ZZZZZZZ''],
        [\<lparr>code_type = ''9'', code = ''100--105,7'', descr = ''D'', code_orig = ''100--105,7'',
          code_array = ''100--105'', code_range = Some ''100--105'', code_regex = None\<rparr>,
         \<lparr>code_type = ''9'', code = ''100--105,7'', descr = ''D'', code_orig = ''100--105,7'',
          code_array = ''7'', code_range = None, code_regex = Some ''7.*''\<rparr>],
        [\<lparr>rx_code_type = ''9'', rx_descr = ''D'', rx_code_regex = ''7.*''\<rparr>])"
  by code_simp

text \<open>
  Claim C1, amended. The call never fails, whatever the entries are. It issues the two
  table statements, one REGEXP statement per row of \<open>df_regex_codes\<close>, and then one
  BETWEEN statement for every row that carries a range, in row order and with no row
  left out: the low bound is the text before the first hyphen, the high bound is the
  text between the first hyphen and the next one (or the end of the entry) padded with
  \<open>Z\<close> to seven characters, and whatever follows a second hyphen is not used.
\<close>

theorem range_never_rejected:
  "\<exists>cur' df rx.
     icd_code_flags_snflk p sheet cur = Inr (cur', df, rx) \<and>
     cur' = cur @ [CreateTableLike (outdata p) (indata p), AlterTableAdd (outdata p)]
            @ map (\<lambda>g. InsertRegexp p (rx_code_regex g) (rx_code_type g) (rx_descr g)) rx
            @ map (\<lambda>e. InsertBetween p (code_array e) (code_type e) (descr e)
                     (takeWhile (\<lambda>c. c \<noteq> CHR ''-'') (code_array e))
                     (ljust 7 CHR ''Z''
                        (takeWhile (\<lambda>c. c \<noteq> CHR ''-'')
                           (tl (dropWhile (\<lambda>c. c \<noteq> CHR ''-'') (code_array e))))))
                  (filter (\<lambda>e. code_range e \<noteq> None) df)"
proof -
  have "filter (\<lambda>e. code_range e \<noteq> None) (prep_codelist sheet) =
        filter (\<lambda>e. CHR ''-'' \<in> set (code_array e)) (prep_codelist sheet)"
    by (rule filter_cong [OF refl]) (simp add: prep_codelist_entry)
  then show ?thesis by (simp add: icd_code_flags_snflk_eq)
qed

theorem range_never_rejected_witness:
  "icd_code_flags_snflk demo_params demo_sheet [] = Inr (demo_cursor, demo_codes, demo_regex) \<and>
   demo_cursor =
     [] @ [CreateTableLike (outdata demo_params) (indata demo_params),
           AlterTableAdd (outdata demo_params)]
        @ map (\<lambda>g. InsertRegexp demo_params (rx_code_regex g) (rx_code_type g) (rx_descr g))
              demo_regex
        @ map (\<lambda>e. InsertBetween demo_params (code_array e) (code_type e) (descr e)
                 (takeWhile (\<lambda>c. c \<noteq> CHR ''-'') (code_array e))
                 (ljust 7 CHR ''Z''
                    (takeWhile (\<lambda>c. c \<noteq> CHR ''-'')
                       (tl (dropWhile (\<lambda>c. c \<noteq> CHR ''-'') (code_array e))))))
              (filter (\<lambda>e. code_range e \<noteq> None) demo_codes)"
proof -
  from range_never_rejected [of demo_params demo_sheet "[]"]
  obtain cur' df rx where r: "icd_code_flags_snflk demo_params demo_sheet [] = Inr (cur', df, rx)"
    and c: "cur' =
     [] @ [CreateTableLike (outdata demo_params) (indata demo_params),
           AlterTableAdd (outdata demo_params)]
        @ map (\<lambda>g. InsertRegexp demo_params (rx_code_regex g) (rx_code_type g) (rx_descr g)) rx
        @ map (\<lambda>e. InsertBetween demo_params (code_array e) (code_type e) (descr e)
                 (takeWhile (\<lambda>c. c \<noteq> CHR ''-'') (code_array e))
                 (ljust 7 CHR ''Z''
                    (takeWhile (\<lambda>c. c \<noteq> CHR ''-'')
                       (tl (dropWhile (\<lambda>c. c \<noteq> CHR ''-'') (code_array e))))))
              (filter (\<lambda>e. code_range e \<noteq> None) df)"
    by blast
  have e: "cur' = demo_cursor" "df = demo_codes" "rx = demo_regex"
    using r demo_run by simp_all
  show ?thesis using demo_run c unfolding e by blast
qed

text \<open>
  Claim C2. Every row of the exploded frame is of exactly one kind: it carries a range
  (\<open>code_range\<close> is set, and holds the raw entry unchanged) if and only if the raw
  entry contains a hyphen, and it carries a matching expression (\<open>code_regex\<close> is set)
  if and only if the raw entry contains no hyphen.
\<close>

theorem kind_range_iff_hyphen:
  assumes "icd_code_flags_snflk p sheet cur = Inr (cur', df, rx)"
    and "e \<in> set df"
  shows "(code_range e \<noteq> None) = (CHR ''-'' \<in> set (code_array e)) \<and>
         (code_regex e \<noteq> None) = (CHR ''-'' \<notin> set (code_array e)) \<and>
         (code_range e = None) \<noteq> (code_regex e = None) \<and>
         (CHR ''-'' \<in> set (code_array e) \<longrightarrow> code_range e = Some (code_array e))"
proof -
  from assms(1) have "df = prep_codelist sheet"
    by (rule icd_code_flags_snflk_result)
  with assms(2) have "e \<in> set (prep_codelist sheet)" by simp
  then show ?thesis by (simp add: prep_codelist_entry)
qed

theorem kind_range_iff_hyphen_witness:
  "icd_code_flags_snflk demo_params demo_sheet [] = Inr (demo_cursor, demo_codes, demo_regex) \<and>
   demo_codes ! 1 \<in> set demo_codes \<and>
   code_range (demo_codes ! 1) = Some ''1-3'' \<and>
   code_regex (demo_codes ! 1) = None \<and>
   CHR ''-'' \<in> set (code_array (demo_codes ! 1))"
proof -
  have m: "demo_codes ! 1 \<in> set demo_codes" by (simp add: demo_codes_def)
  show ?thesis
    using demo_run m kind_range_iff_hyphen [OF demo_run m]
    by (simp add: demo_codes_def)
qed



text \<open>
  Claim C4. For every row whose raw entry is \<open>l-r\<close> with no further hyphen, the loop
  body builds, and the call issues, the BETWEEN statement with the low bound \<open>l\<close> and
  the high bound \<open>r\<close> padded on the right with \<open>Z\<close> to seven characters; a part \<open>r\<close>
  of seven or more characters is used as it is. The high bound has
  \<open>max 7 (length r)\<close> characters: at least seven, and as many as \<open>r\<close> when \<open>r\<close> has
  seven or more.
\<close>

theorem range_bounds:
  assumes "icd_code_flags_snflk p sheet cur = Inr (cur', df, rx)"
    and "e \<in> set df"
    and "code_array e = l @ ''-'' @ r"
    and "CHR ''-'' \<notin> set l"
    and "CHR ''-'' \<notin> set r"
  shows "range_statement p (code_array e) (code_type e) (descr e) =
           Inr (InsertBetween p (code_array e) (code_type e) (descr e)
                  l (r @ replicate (7 - length r) CHR ''Z'')) \<and>
         InsertBetween p (code_array e) (code_type e) (descr e)
                  l (r @ replicate (7 - length r) CHR ''Z'') \<in> set (drop (length cur) cur') \<and>
         length (r @ replicate (7 - length r) CHR ''Z'') = max 7 (length r) \<and>
         (7 \<le> length r \<longrightarrow> r @ replicate (7 - length r) CHR ''Z'' = r)"
proof -
  have h: "CHR ''-'' \<in> set (code_array e)" by (simp add: assms(3))
  have lo: "takeWhile (\<lambda>c. c \<noteq> CHR ''-'') (code_array e) = l"
    using assms(4) by (simp add: assms(3) takeWhile_before_sep)
  have "dropWhile (\<lambda>c. c \<noteq> CHR ''-'') (code_array e) = CHR ''-'' # r"
    using assms(4) by (simp add: assms(3) dropWhile_before_sep)
  then have hi: "takeWhile (\<lambda>c. c \<noteq> CHR ''-'') (tl (dropWhile (\<lambda>c. c \<noteq> CHR ''-'') (code_array e))) = r"
    using assms(5) by (simp add: takeWhile_no_sep)
  have st: "range_statement p (code_array e) (code_type e) (descr e) =
           Inr (InsertBetween p (code_array e) (code_type e) (descr e)
                  l (r @ replicate (7 - length r) CHR ''Z''))"
    by (simp add: range_statement_hyphen [OF h] lo hi ljust_def)
  note df = icd_code_flags_snflk_result(1) [OF assms(1)]
  note cur' = icd_code_flags_snflk_result(3) [OF assms(1)]
  have "e \<in> set (filter (\<lambda>e. CHR ''-'' \<in> set (code_array e)) df)"
    using assms(2) h by simp
  then have "InsertBetween p (code_array e) (code_type e) (descr e)
                     (takeWhile (\<lambda>c. c \<noteq> CHR ''-'') (code_array e))
                     (ljust 7 CHR ''Z''
                        (takeWhile (\<lambda>c. c \<noteq> CHR ''-'')
                           (tl (dropWhile (\<lambda>c. c \<noteq> CHR ''-'') (code_array e)))))
        \<in> set (drop (length cur) cur')"
    unfolding cur' by (simp del: set_filter)
  then have mem: "InsertBetween p (code_array e) (code_type e) (descr e)
                  l (r @ replicate (7 - length r) CHR ''Z'') \<in> set (drop (length cur) cur')"
    by (simp only: lo hi ljust_def)
  have "length (r @ replicate (7 - length r) CHR ''Z'') = max 7 (length r)" by simp
  moreover have "7 \<le> length r \<longrightarrow> r @ replicate (7 - length r) CHR ''Z'' = r" by simp
  ultimately show ?thesis using st mem by blast
qed

theorem range_bounds_witness:
  "icd_code_flags_snflk demo_params demo_sheet [] = Inr (demo_cursor, demo_codes, demo_regex) \<and>
   demo_codes ! 1 \<in> set demo_codes \<and>
   code_array (demo_codes ! 1) = ''1'' @ ''-'' @ ''3'' \<and>
   CHR ''-'' \<notin> set ''1'' \<and> CHR ''-'' \<notin> set ''3'' \<and>
   range_statement demo_params ''1-3'' ''9'' ''D'' =
     Inr (InsertBetween demo_params ''1-3'' ''9'' ''D'' ''1'' ''3ZZZZZZ'') \<and>
   InsertBetween demo_params ''1-3'' ''9'' ''D'' ''1'' ''3ZZZZZZ''
     \<in> set (drop (length ([]::cursor)) demo_cursor) \<and>
   length ''3ZZZZZZ'' = max 7 (length ''3'')"
proof -
  have m: "demo_codes ! 1 \<in> set demo_codes" by (simp add: demo_codes_def)
  have a: "code_array (demo_codes ! 1) = ''1'' @ ''-'' @ ''3''" by (simp add: demo_codes_def)
  have l: "CHR ''-'' \<notin> set ''1''" by simp
  have r: "CHR ''-'' \<notin> set ''3''" by simp
  have v: "code_array (demo_codes ! 1) = ''1-3''" "code_type (demo_codes ! 1) = ''9''"
    "descr (demo_codes ! 1) = ''D''"
    by (simp_all add: demo_codes_def)
  have z: "''3'' @ replicate (7 - length ''3'') CHR ''Z'' = ''3ZZZZZZ''" by code_simp
  note c = range_bounds [OF demo_run m a l r, unfolded v z]
  show ?thesis using demo_run m a l r c by blast
qed

text \<open>
  Claim C5. The rows of \<open>df_regex_codes\<close> have pairwise different keys
  (code type, description), and their keys are exactly the keys of the rows that carry
  a matching expression: one rule for each distinct key. The expression of a rule is
  the \<open>|\<close>-join of the expressions of exactly those rows that agree with the rule on
  both the code type and the description, taken in row order.
\<close>

theorem pattern_rules_grouping:
  assumes "icd_code_flags_snflk p sheet cur = Inr (cur', df, rx)"
  shows "distinct (map (\<lambda>g. (rx_code_type g, rx_descr g)) rx) \<and>
         set (map (\<lambda>g. (rx_code_type g, rx_descr g)) rx) =
           (\<lambda>e. (code_type e, descr e)) ` {e \<in> set df. code_regex e \<noteq> None} \<and>
         (\<forall>g \<in> set rx.
            rx_code_regex g =
              join ''|'' (List.map_filter code_regex
                (filter (\<lambda>e. code_type e = rx_code_type g \<and> descr e = rx_descr g) df)))"
proof -
  note rx = icd_code_flags_snflk_result(2) [OF assms]
  have fin: "finite (fst ` set (regex_entries df))" by simp
  have keys: "map (\<lambda>g. (rx_code_type g, rx_descr g)) rx =
      sorted_list_of_set (fst ` set (regex_entries df))"
    unfolding rx by (rule regex_codes_keys)
  have d: "distinct (map (\<lambda>g. (rx_code_type g, rx_descr g)) rx)"
    unfolding keys by (rule distinct_sorted_list_of_set)
  have s: "set (map (\<lambda>g. (rx_code_type g, rx_descr g)) rx) =
      (\<lambda>e. (code_type e, descr e)) ` {e \<in> set df. code_regex e \<noteq> None}"
    unfolding keys using fin by (simp only: set_sorted_list_of_set regex_entries_keys)
  have m: "\<forall>g \<in> set rx.
            rx_code_regex g =
              join ''|'' (List.map_filter code_regex
                (filter (\<lambda>e. code_type e = rx_code_type g \<and> descr e = rx_descr g) df))"
  proof
    fix g assume "g \<in> set rx"
    then have "g \<in> set (regex_codes df)" by (simp only: rx)
    then have "rx_code_regex g =
      join ''|'' (map snd (filter (\<lambda>kv. fst kv = (rx_code_type g, rx_descr g)) (regex_entries df)))"
      by (rule regex_codes_member)
    then show "rx_code_regex g =
              join ''|'' (List.map_filter code_regex
                (filter (\<lambda>e. code_type e = rx_code_type g \<and> descr e = rx_descr g) df))"
      by (simp add: regex_entries_group)
  qed
  from d s m show ?thesis by blast
qed

theorem pattern_rules_grouping_witness:
  "icd_code_flags_snflk demo_params demo_sheet [] = Inr (demo_cursor, demo_codes, demo_regex) \<and>
   distinct (map (\<lambda>g. (rx_code_type g, rx_descr g)) demo_regex) \<and>
   set (map (\<lambda>g. (rx_code_type g, rx_descr g)) demo_regex) =
     (\<lambda>e. (code_type e, descr e)) ` {e \<in> set demo_codes. code_regex e \<noteq> None} \<and>
   demo_regex ! 1 \<in> set demo_regex \<and>
   rx_code_regex (demo_regex ! 1) =
     join ''|'' (List.map_filter code_regex
       (filter (\<lambda>e. code_type e = rx_code_type (demo_regex ! 1) \<and>
                     descr e = rx_descr (demo_regex ! 1)) demo_codes)) \<and>
   rx_code_regex (demo_regex ! 1) = ''25..*|26.*''"
proof -
  note c = pattern_rules_grouping [OF demo_run]
  have m: "demo_regex ! 1 \<in> set demo_regex" by (simp add: demo_regex_def)
  have v: "rx_code_regex (demo_regex ! 1) = ''25..*|26.*''" by (simp add: demo_regex_def)
  from c m have "rx_code_regex (demo_regex ! 1) =
     join ''|'' (List.map_filter code_regex
       (filter (\<lambda>e. code_type e = rx_code_type (demo_regex ! 1) \<and>
                     descr e = rx_descr (demo_regex ! 1)) demo_codes))"
    by blast
  with c m v demo_run show ?thesis by blast
qed

text \<open>
  Claim C6. The code type of the rows of the exploded frame is computed once for each
  sheet row that is kept and repeated for every entry of that row: it is \<open>9\<close> when the
  code-type text of the row contains \<open>9\<close>, otherwise \<open>10\<close> when it contains \<open>10\<close>,
  otherwise the text itself. The test for \<open>9\<close> comes first, so a text that contains
  both gives \<open>9\<close>.
\<close>

theorem code_type_per_row:
  assumes "icd_code_flags_snflk p sheet cur = Inr (cur', df, rx)"
  shows "map code_type df =
     concat (map (\<lambda>r. replicate (length (str_split CHR '','' (str_replace CHR '' '' [] (code r))))
                    (if str_contains ''9'' (code_type r) then ''9''
                     else if str_contains ''10'' (code_type r) then ''10''
                     else code_type r))
                 (select_icd sheet))"
proof -
  note df = icd_code_flags_snflk_result(1) [OF assms]
  show ?thesis
    unfolding df prep_codelist_eq
    by (simp add: map_concat comp_def map_replicate_const match_code_type_def str_replace_delete)
qed

theorem code_type_per_row_witness:
  "icd_code_flags_snflk demo_params demo_sheet [] = Inr (demo_cursor, demo_codes, demo_regex) \<and>
   map code_type demo_codes =
     concat (map (\<lambda>r. replicate (length (str_split CHR '','' (str_replace CHR '' '' [] (code r))))
                    (if str_contains ''9'' (code_type r) then ''9''
                     else if str_contains ''10'' (code_type r) then ''10''
                     else code_type r))
                 (select_icd demo_sheet)) \<and>
   map code_type demo_codes = [''9'', ''9'', ''10'', ''9'']"
proof -
  note c = code_type_per_row [OF demo_run]
  have v: "map code_type demo_codes = [''9'', ''9'', ''10'', ''9'']"
    by (simp add: demo_codes_def)
  from c v demo_run show ?thesis by blast
qed

text \<open>
  Claim C7. The call never fails, and its whole result (the statements issued and both
  frames) is the result on the sheet restricted to the rows whose code-type text, put in
  upper case, contains \<open>ICD\<close>: the other rows contribute nothing. Every row whose
  code type contains \<open>ICD\<close> in any letter case is kept (it has at least one row in
  the exploded frame), and every row of the exploded frame comes from such a row.
\<close>

theorem non_icd_rows_excluded:
  "\<exists>cur' df rx.
     icd_code_flags_snflk p sheet cur = Inr (cur', df, rx) \<and>
     icd_code_flags_snflk p (filter (\<lambda>r. str_contains ''ICD'' (str_upper (code_type r))) sheet) cur
       = Inr (cur', df, rx) \<and>
     (\<forall>r \<in> set sheet. str_contains ''ICD'' (str_upper (code_type r)) \<longrightarrow>
        (\<exists>e \<in> set df. code_orig e = code r \<and> descr e = descr r)) \<and>
     (\<forall>e \<in> set df. \<exists>r \<in> set sheet. str_contains ''ICD'' (str_upper (code_type r)) \<and>
        code_orig e = code r \<and> descr e = descr r)"
proof -
  let ?icd = "\<lambda>r. str_contains ''ICD'' (str_upper (code_type r))"
  have same: "prep_codelist (filter ?icd sheet) = prep_codelist sheet"
    using prep_codelist_select_icd [of sheet] by (simp only: select_icd_eq)
  have run: "icd_code_flags_snflk p (filter ?icd sheet) cur = icd_code_flags_snflk p sheet cur"
    by (simp only: icd_code_flags_snflk_eq same)
  have kept: "\<forall>r \<in> set sheet. ?icd r \<longrightarrow>
     (\<exists>e \<in> set (prep_codelist sheet). code_orig e = code r \<and> descr e = descr r)"
  proof (intro ballI impI)
    fix r assume r: "r \<in> set sheet" "?icd r"
    then have sel: "r \<in> set (select_icd sheet)" by (simp add: select_icd_eq)
    obtain h t where ht: "str_split CHR '','' (filter (\<lambda>c. c \<noteq> CHR '' '') (code r)) = h # t"
      using str_split_not_Nil [of "CHR '',''" "filter (\<lambda>c. c \<noteq> CHR '' '') (code r)"]
      by (cases "str_split CHR '','' (filter (\<lambda>c. c \<noteq> CHR '' '') (code r))") auto
    show "\<exists>e \<in> set (prep_codelist sheet). code_orig e = code r \<and> descr e = descr r"
      unfolding prep_codelist_eq using sel ht by (simp del: set_filter) force
  qed
  have only: "\<forall>e \<in> set (prep_codelist sheet). \<exists>r \<in> set sheet. ?icd r \<and>
        code_orig e = code r \<and> descr e = descr r"
    unfolding prep_codelist_eq by (auto simp: select_icd_eq)
  show ?thesis
    using kept only run by (simp add: icd_code_flags_snflk_eq)
qed

theorem non_icd_rows_excluded_witness:
  "icd_code_flags_snflk demo_params demo_sheet [] = Inr (demo_cursor, demo_codes, demo_regex) \<and>
   filter (\<lambda>r. str_contains ''ICD'' (str_upper (code_type r))) demo_sheet =
     [demo_sheet ! 0, demo_sheet ! 2, demo_sheet ! 3] \<and>
   icd_code_flags_snflk demo_params
     (filter (\<lambda>r. str_contains ''ICD'' (str_upper (code_type r))) demo_sheet) []
       = Inr (demo_cursor, demo_codes, demo_regex)"
proof -
  from non_icd_rows_excluded [of demo_params demo_sheet "[]"]
  obtain cur' df rx where r: "icd_code_flags_snflk demo_params demo_sheet [] = Inr (cur', df, rx)"
    and f: "icd_code_flags_snflk demo_params
       (filter (\<lambda>r. str_contains ''ICD'' (str_upper (code_type r))) demo_sheet) [] = Inr (cur', df, rx)"
    by blast
  have e: "cur' = demo_cursor" "df = demo_codes" "rx = demo_regex"
    using r demo_run by simp_all
  have s: "filter (\<lambda>r. str_contains ''ICD'' (str_upper (code_type r))) demo_sheet =
     [demo_sheet ! 0, demo_sheet ! 2, demo_sheet ! 3]"
    unfolding demo_sheet_def by code_simp
  show ?thesis using demo_run s f unfolding e by blast
qed

text \<open>
  Claim C8, as stated, fails. Only the blank \<open>CHR 0x20\<close> is removed from a cell. On
  the cell that consists of \<open>1\<close>, a tab (\<open>CHR 0x09\<close>), \<open>2\<close>, a comma, a blank and
  \<open>3\<close>, the blank disappears and the tab stays: it is in the stripped cell, in the
  first entry and in the expression issued to the database.
\<close>

theorem tab_kept_counterexample:
  "icd_code_flags_snflk demo_params
     [\<lparr>code_type = ''ICD9'', code = [CHR ''1'', CHR 0x09, CHR ''2'', CHR '','', CHR '' '', CHR ''3''],
       descr = ''D''\<rparr>] [] =
   Inr ([CreateTableLike ''O'' ''I'', AlterTableAdd ''O'',
         InsertRegexp demo_params
           [CHR ''1'', CHR 0x09, CHR ''2'', CHR ''.'', CHR ''*'', CHR ''|'', CHR ''3'', CHR ''.'', CHR ''*'']
           ''9'' ''D''],
        [\<lparr>code_type = ''9'', code = [CHR ''1'', CHR 0x09, CHR ''2'', CHR '','', CHR ''3''],
          descr = ''D'',
          code_orig = [CHR ''1'', CHR 0x09, CHR ''2'', CHR '','', CHR '' '', CHR ''3''],
          code_array = [CHR ''1'', CHR 0x09, CHR ''2''], code_range = None,
          code_regex = Some [CHR ''1'', CHR 0x09, CHR ''2'', CHR ''.'', CHR ''*'']\<rparr>,
         \<lparr>code_type = ''9'', code = [CHR ''1'', CHR 0x09, CHR ''2'', CHR '','', CHR ''3''],
          descr = ''D'',
          code_orig = [CHR ''1'', CHR 0x09, CHR ''2'', CHR '','', CHR '' '', CHR ''3''],
          code_array = ''3'', code_range = None, code_regex = Some ''3.*''\<rparr>],
        [\<lparr>rx_code_type = ''9'', rx_descr = ''D'',
          rx_code_regex =
            [CHR ''1'', CHR 0x09, CHR ''2'', CHR ''.'', CHR ''*'', CHR ''|'', CHR ''3'', CHR ''.'', CHR ''*'']\<rparr>])"
  by code_simp

text \<open>
  Claim C8, amended. Every blank (the space character, and no other white space) is
  removed from the cell, wherever it stands, and the result is split at the commas: the
  entries of the exploded frame are, in order, the pieces of the stripped cells of the
  rows that are kept. No entry contains a blank or a comma, and every character of an
  entry is a character of the cell. An empty piece is kept as an entry: it carries no
  range and the expression \<open>.*\<close>. Splitting drops nothing: joining the pieces with
  commas gives the stripped cell back, and there is one piece more than commas.
\<close>

theorem cell_split:
  assumes "icd_code_flags_snflk p sheet cur = Inr (cur', df, rx)"
  shows "map code_array df =
           concat (map (\<lambda>r. str_split CHR '','' (filter (\<lambda>c. c \<noteq> CHR '' '') (code r)))
                       (select_icd sheet)) \<and>
         (\<forall>e \<in> set df.
            code e = filter (\<lambda>c. c \<noteq> CHR '' '') (code_orig e) \<and>
            CHR '' '' \<notin> set (code_array e) \<and>
            CHR '','' \<notin> set (code_array e) \<and>
            set (code_array e) \<subseteq> set (code_orig e) \<and>
            (code_array e = [] \<longrightarrow> code_range e = None \<and> code_regex e = Some ''.*'')) \<and>
         (\<forall>s. join '','' (str_split CHR '','' s) = s \<and>
              length (str_split CHR '','' s) = Suc (count_list s CHR '',''))"
proof -
  note df = icd_code_flags_snflk_result(1) [OF assms]
  have a: "map code_array df =
           concat (map (\<lambda>r. str_split CHR '','' (filter (\<lambda>c. c \<noteq> CHR '' '') (code r)))
                       (select_icd sheet))"
    unfolding df prep_codelist_eq by (simp add: map_concat comp_def)
  have b: "\<forall>e \<in> set df.
            code e = filter (\<lambda>c. c \<noteq> CHR '' '') (code_orig e) \<and>
            CHR '' '' \<notin> set (code_array e) \<and>
            CHR '','' \<notin> set (code_array e) \<and>
            set (code_array e) \<subseteq> set (code_orig e) \<and>
            (code_array e = [] \<longrightarrow> code_range e = None \<and> code_regex e = Some ''.*'')"
  proof
    fix e assume "e \<in> set df"
    then have "e \<in> set (prep_codelist sheet)" by (simp only: df)
    from prep_codelist_mem [OF this] obtain r :: map_row and piece where
      piece: "piece \<in> set (str_split CHR '','' (filter (\<lambda>c. c \<noteq> CHR '' '') (code r)))"
      and e: "e = \<lparr>code_type = match_code_type (code_type r),
          code = filter (\<lambda>c. c \<noteq> CHR '' '') (code r),
          descr = descr r,
          code_orig = code r,
          code_array = piece,
          code_range = (if CHR ''-'' \<in> set piece then Some piece else None),
          code_regex = (if CHR ''-'' \<in> set piece then None
                        else Some (map (\<lambda>c. if c = CHR ''x'' then CHR ''.'' else c) piece @ ''.*''))\<rparr>"
      by blast
    from piece have sub: "set piece \<subseteq> set (filter (\<lambda>c. c \<noteq> CHR '' '') (code r))"
      by (rule str_split_subset)
    from piece have nc: "CHR '','' \<notin> set piece" by (rule str_split_pieces)
    from sub have ns: "CHR '' '' \<notin> set piece" by auto
    from sub have so: "set piece \<subseteq> set (code r)" by auto
    show "code e = filter (\<lambda>c. c \<noteq> CHR '' '') (code_orig e) \<and>
            CHR '' '' \<notin> set (code_array e) \<and>
            CHR '','' \<notin> set (code_array e) \<and>
            set (code_array e) \<subseteq> set (code_orig e) \<and>
            (code_array e = [] \<longrightarrow> code_range e = None \<and> code_regex e = Some ''.*'')"
      using nc ns so by (simp add: e)
  qed
  have c: "\<forall>s. join '','' (str_split CHR '','' s) = s \<and>
              length (str_split CHR '','' s) = Suc (count_list s CHR '','')"
    by (simp add: join_str_split length_str_split)
  from a b c show ?thesis by blast
qed

theorem cell_split_witness:
  "icd_code_flags_snflk demo_params comma_sheet [] =
     Inr ([CreateTableLike ''O'' ''I'', AlterTableAdd ''O'',
           InsertRegexp demo_params ''25.*|.*|7.*'' ''9'' ''D''],
          comma_codes,
          [\<lparr>rx_code_type = ''9'', rx_descr = ''D'', rx_code_regex = ''25.*|.*|7.*''\<rparr>]) \<and>
   map code_array comma_codes =
     concat (map (\<lambda>r. str_split CHR '','' (filter (\<lambda>c. c \<noteq> CHR '' '') (code r)))
                 (select_icd comma_sheet)) \<and>
   map code_array comma_codes = [''25'', '''', ''7''] \<and>
   comma_codes ! 1 \<in> set comma_codes \<and>
   code_array (comma_codes ! 1) = [] \<and>
   code_range (comma_codes ! 1) = None \<and>
   code_regex (comma_codes ! 1) = Some ''.*'' \<and>
   CHR '' '' \<notin> set (code_array (comma_codes ! 1))"
proof -
  note c = cell_split [OF comma_run]
  have m: "comma_codes ! 1 \<in> set comma_codes" by (simp add: comma_codes_def)
  have v: "map code_array comma_codes = [''25'', '''', ''7'']" by (simp add: comma_codes_def)
  have n: "code_array (comma_codes ! 1) = []" by (simp add: comma_codes_def)
  from c m have "code_array (comma_codes ! 1) = [] \<longrightarrow>
      code_range (comma_codes ! 1) = None \<and> code_regex (comma_codes ! 1) = Some ''.*''"
    and "CHR '' '' \<notin> set (code_array (comma_codes ! 1))"
    by blast+
  with c m v n comma_run show ?thesis by blast
qed



text \<open>
  Claim C10. The keys of the rows of \<open>df_regex_codes\<close>, in the order of the frame, are
  the sorted list of the set of the keys of the rows that carry a matching expression:
  ascending in the lexicographic order of the pair, each component compared as a string
  character by character, and dependent on the set of keys only, not on where a key
  first appears. The REGEXP statements are issued in this order, right after the two
  table statements.
\<close>

theorem pattern_rules_order:
  assumes "icd_code_flags_snflk p sheet cur = Inr (cur', df, rx)"
  shows "map (\<lambda>g. (rx_code_type g, rx_descr g)) rx =
           sorted_list_of_set ((\<lambda>e. (code_type e, descr e)) ` {e \<in> set df. code_regex e \<noteq> None}) \<and>
         sorted (map (\<lambda>g. (rx_code_type g, rx_descr g)) rx) \<and>
         take (length rx) (drop (length cur + 2) cur') =
           map (\<lambda>g. InsertRegexp p (rx_code_regex g) (rx_code_type g) (rx_descr g)) rx"
proof -
  note rx = icd_code_flags_snflk_result(2) [OF assms]
  note cur' = icd_code_flags_snflk_result(3) [OF assms]
  have keys: "map (\<lambda>g. (rx_code_type g, rx_descr g)) rx =
      sorted_list_of_set ((\<lambda>e. (code_type e, descr e)) ` {e \<in> set df. code_regex e \<noteq> None})"
    unfolding rx by (simp only: regex_codes_keys regex_entries_keys)
  have srt: "sorted (map (\<lambda>g. (rx_code_type g, rx_descr g)) rx)"
    unfolding keys by (rule sorted_sorted_list_of_set)
  have "take (length rx) (drop (length cur + 2) cur') =
           map (\<lambda>g. InsertRegexp p (rx_code_regex g) (rx_code_type g) (rx_descr g)) rx"
    unfolding cur' by simp
  with keys srt show ?thesis by blast
qed

theorem pattern_rules_order_witness:
  "icd_code_flags_snflk demo_params demo_sheet [] = Inr (demo_cursor, demo_codes, demo_regex) \<and>
   map (\<lambda>e. (code_type e, descr e)) [e \<leftarrow> demo_codes. code_regex e \<noteq> None] =
     [(''9'', ''D''), (''10'', ''H''), (''9'', ''D'')] \<and>
   map (\<lambda>g. (rx_code_type g, rx_descr g)) demo_regex = [(''10'', ''H''), (''9'', ''D'')] \<and>
   map (\<lambda>g. (rx_code_type g, rx_descr g)) demo_regex =
     sorted_list_of_set ((\<lambda>e. (code_type e, descr e)) ` {e \<in> set demo_codes. code_regex e \<noteq> None}) \<and>
   sorted (map (\<lambda>g. (rx_code_type g, rx_descr g)) demo_regex) \<and>
   take (length demo_regex) (drop (length ([]::cursor) + 2) demo_cursor) =
     map (\<lambda>g. InsertRegexp demo_params (rx_code_regex g) (rx_code_type g) (rx_descr g)) demo_regex"
proof -
  note c = pattern_rules_order [OF demo_run]
  have a: "map (\<lambda>e. (code_type e, descr e)) [e \<leftarrow> demo_codes. code_regex e \<noteq> None] =
     [(''9'', ''D''), (''10'', ''H''), (''9'', ''D'')]"
    by (simp add: demo_codes_def)
  have b: "map (\<lambda>g. (rx_code_type g, rx_descr g)) demo_regex = [(''10'', ''H''), (''9'', ''D'')]"
    by (simp add: demo_regex_def)
  from a b c demo_run show ?thesis by blast
qed

end
